theory Spec2Isabelle
  imports Main "HOL-Library.Word" "HOL-Library.Sublist" "HOL-Library.AList"
begin

section \<open>Data model (internal/app/models, internal/utils/errs)\<close>

text \<open>
  Go's \<open>int64\<close> and, on the 64-bit targets the service is built for, Go's \<open>int\<close> are
  64-bit two's complement words: \<open>+\<close> and \<open>-\<close> wrap, \<open>sint\<close> reads the signed value.
  A \<open>time.Time\<close> is an instant, kept abstract as an integer.
\<close>

type_synonym int64 = "64 word"
type_synonym go_int = "64 word"
type_synonym Time = int

text \<open>\<open>type TaskStatus string\<close> with its four constants.\<close>

datatype TaskStatus = StatusWaiting | StatusProcessing | StatusDone | StatusFailed

record Object =
  ObjectID :: int64
  URL :: string
  Error :: string

record Task =
  ID :: int64
  Status :: TaskStatus
  Objects :: "Object list"
  CreatedAt :: Time

text \<open>
  The sentinel errors of package \<open>errs\<close>. \<open>CreateTask\<close> wraps \<open>ErrMaxTasksReached\<close>
  with the current and the maximal count (\<open>"%w: current %d, max %d"\<close>); the wrapped
  error carries both numbers.
\<close>

datatype error =
    ErrTaskNotFound
  | ErrMaxTasksReached go_int go_int
  | ErrMaxObjectsReached
  | ErrInvalidFileType

section \<open>Strings: \<open>strings.ToLower\<close>, \<open>filepath.Ext\<close>, \<open>%d\<close>\<close>

text \<open>
  A Go string is a byte sequence. \<open>strings.ToLower\<close> maps the ASCII letters \<open>A\<close>..\<open>Z\<close>
  to \<open>a\<close>..\<open>z\<close>; bytes outside ASCII belong to runes whose lower case is never one of
  the ASCII characters of the allowed extensions, so they are left as they are here.
\<close>

definition to_lower_byte :: "char \<Rightarrow> char" where
  "to_lower_byte c =
     (if (65::nat) \<le> of_char c \<and> of_char c \<le> (90::nat)
      then char_of (of_char c + (32::nat)) else c)"

definition ToLower :: "string \<Rightarrow> string" where
  "ToLower s = map to_lower_byte s"

text \<open>
  \<open>filepath.Ext\<close> on a slash-separated platform:
  \<^verbatim>\<open>for i := len(path) - 1; i >= 0 && !os.IsPathSeparator(path[i]); i-- {
      if path[i] == '.' { return path[i:] }
  }
  return ""\<close>
  \<open>ext_loop path (Suc i)\<close> is the loop about to inspect \<open>path[i]\<close>.
\<close>

primrec ext_loop :: "string \<Rightarrow> nat \<Rightarrow> string" where
  "ext_loop path 0 = []"
| "ext_loop path (Suc i) =
     (if path ! i = CHR ''/'' then []
      else if path ! i = CHR ''.'' then drop i path
      else ext_loop path i)"

definition Ext :: "string \<Rightarrow> string" where
  "Ext path = ext_loop path (length path)"

text \<open>Decimal rendering, as \<open>%d\<close> prints a signed integer.\<close>

definition digit_char :: "nat \<Rightarrow> char" where
  "digit_char d = char_of (48 + d)"

function dec_nat :: "nat \<Rightarrow> string" where
  "dec_nat n = (if n < 10 then [digit_char n] else dec_nat (n div 10) @ [digit_char (n mod 10)])"
  by pat_completeness auto
termination
  by (relation "measure id") auto

declare dec_nat.simps [simp del]

definition dec_int :: "int \<Rightarrow> string" where
  "dec_int k = (if k < 0 then CHR ''-'' # dec_nat (nat (- k)) else dec_nat (nat k))"


section \<open>Validator (internal/utils/validate)\<close>

definition maxObjectsPerTask :: nat where
  "maxObjectsPerTask = 3"

definition allowedExtensions :: "string \<rightharpoonup> bool" where
  "allowedExtensions = [''.pdf'' \<mapsto> True, ''.jpeg'' \<mapsto> True, ''.jpg'' \<mapsto> True]"

text \<open>The argument is a \<open>len(...)\<close>, never negative.\<close>

definition ValidateObjectLimit :: "nat \<Rightarrow> error option" where
  "ValidateObjectLimit currentObjects =
     (if currentObjects \<ge> maxObjectsPerTask then Some ErrMaxObjectsReached else None)"

definition ValidateFileExtension :: "string \<Rightarrow> error option" where
  "ValidateFileExtension url =
     (let ext = ToLower (Ext url)
      in if allowedExtensions ext = None then Some ErrInvalidFileType else None)"

text \<open>
  The extension rule in the specification's words: the lower-cased string ends in
  \<open>.pdf\<close>, \<open>.jpeg\<close> or \<open>.jpg\<close>.
\<close>

definition spec_allowed_suffix :: "string \<Rightarrow> bool" where
  "spec_allowed_suffix url =
     (suffix ''.pdf'' (ToLower url) \<or> suffix ''.jpeg'' (ToLower url) \<or> suffix ''.jpg'' (ToLower url))"

section \<open>Task registry (package repository)\<close>

text \<open>
  \<open>tasks\<close> is \<open>map[int64]*models.Task\<close>: the map holds pointers. A pointer is an index into
  \<open>heap\<close>, the \<open>Task\<close> objects allocated by \<open>CreateTask\<close>, so that a pointer handed to a
  caller keeps denoting the object the registry mutates. Every method body runs under
  the registry's mutex and is one atomic transition here. The two readings of the clock in
  \<open>CreateTask\<close> (\<open>time.Now().UnixNano()\<close> for the id, \<open>time.Now()\<close> for \<open>CreatedAt\<close>) and
  the one in \<open>AddObject\<close> are arguments.
\<close>

record TaskRepository =
  heap :: "Task list"
  tasks :: "(int64 \<times> nat) list"
  activeTasks :: go_int
  maxTasks :: go_int

definition CreateTaskRepository :: "go_int \<Rightarrow> TaskRepository" where
  "CreateTaskRepository mx = \<lparr>heap = [], tasks = [], activeTasks = 0, maxTasks = mx\<rparr>"

definition TaskRepository_CreateTask ::
  "TaskRepository \<Rightarrow> int64 \<Rightarrow> Time \<Rightarrow> TaskRepository \<times> (error + nat)" where
  "TaskRepository_CreateTask r unixNano now =
     (if sint (activeTasks r) \<ge> sint (maxTasks r)
      then (r, Inl (ErrMaxTasksReached (activeTasks r) (maxTasks r)))
      else
        let task = \<lparr>ID = unixNano, Status = StatusWaiting, Objects = [], CreatedAt = now\<rparr>;
            p = length (heap r)
        in (r\<lparr>heap := heap r @ [task],
               tasks := AList.update (ID task) p (tasks r),
               activeTasks := activeTasks r + 1\<rparr>,
            Inr p))"

definition TaskRepository_GetTask :: "TaskRepository \<Rightarrow> int64 \<Rightarrow> error + nat" where
  "TaskRepository_GetTask r tid =
     (case map_of (tasks r) tid of
        None \<Rightarrow> Inl ErrTaskNotFound
      | Some p \<Rightarrow> Inr p)"

definition TaskRepository_AddObject ::
  "TaskRepository \<Rightarrow> int64 \<Rightarrow> string \<Rightarrow> int64 \<Rightarrow> TaskRepository \<times> (error + nat)" where
  "TaskRepository_AddObject r taskID url unixNano =
     (case map_of (tasks r) taskID of
        None \<Rightarrow> (r, Inl ErrTaskNotFound)
      | Some p \<Rightarrow>
          let task = heap r ! p in
          (case ValidateObjectLimit (length (Objects task)) of
             Some err \<Rightarrow> (r, Inl err)
           | None \<Rightarrow>
               (case ValidateFileExtension url of
                  Some err \<Rightarrow> (r, Inl err)
                | None \<Rightarrow>
                    let object = \<lparr>ObjectID = unixNano, URL = url, Error = []\<rparr>
                    in (r\<lparr>heap := (heap r)[p := task\<lparr>Objects := Objects task @ [object]\<rparr>]\<rparr>,
                        Inr p))))"

definition TaskRepository_UpdateTaskStatus ::
  "TaskRepository \<Rightarrow> int64 \<Rightarrow> TaskStatus \<Rightarrow> TaskRepository \<times> error option" where
  "TaskRepository_UpdateTaskStatus r tid status =
     (case map_of (tasks r) tid of
        None \<Rightarrow> (r, Some ErrTaskNotFound)
      | Some p \<Rightarrow>
          let task = heap r ! p;
              oldStatus = Status task;
              r1 = r\<lparr>heap := (heap r)[p := task\<lparr>Status := status\<rparr>]\<rparr>
          in if (status = StatusDone \<or> status = StatusFailed) \<and>
                (oldStatus = StatusWaiting \<or> oldStatus = StatusProcessing)
             then (r1\<lparr>activeTasks := activeTasks r1 - 1\<rparr>, None)
             else (r1, None))"

text \<open>Go iterates a map in an unspecified order; the order of the list is one of them.\<close>

definition TaskRepository_GetAllTasks :: "TaskRepository \<Rightarrow> nat list" where
  "TaskRepository_GetAllTasks r = map snd (tasks r)"

definition GetMaxTasks :: "TaskRepository \<Rightarrow> go_int" where
  "GetMaxTasks r = maxTasks r"

definition GetActiveTasksCount :: "TaskRepository \<Rightarrow> go_int" where
  "GetActiveTasksCount r = activeTasks r"

subsection \<open>Sequences of registry operations\<close>

datatype op =
    OpCreateTask int64 Time
  | OpAddObject int64 string int64
  | OpUpdateTaskStatus int64 TaskStatus
  | OpGetTask int64
  | OpGetAllTasks

fun step :: "TaskRepository \<Rightarrow> op \<Rightarrow> TaskRepository" where
  "step r (OpCreateTask unixNano now) = fst (TaskRepository_CreateTask r unixNano now)"
| "step r (OpAddObject taskID url unixNano) = fst (TaskRepository_AddObject r taskID url unixNano)"
| "step r (OpUpdateTaskStatus tid status) = fst (TaskRepository_UpdateTaskStatus r tid status)"
| "step r (OpGetTask tid) = r"
| "step r OpGetAllTasks = r"

fun run :: "TaskRepository \<Rightarrow> op list \<Rightarrow> TaskRepository" where
  "run r [] = r"
| "run r (x # xs) = run (step r x) xs"

definition terminal :: "TaskStatus \<Rightarrow> bool" where
  "terminal s = (s = StatusDone \<or> s = StatusFailed)"

text \<open>
  An operation regresses when it is an \<open>UpdateTaskStatus\<close> that asks for a non-terminal
  status on a task whose status is terminal.
\<close>

fun regresses :: "TaskRepository \<Rightarrow> op \<Rightarrow> bool" where
  "regresses r (OpUpdateTaskStatus tid status) =
     (case map_of (tasks r) tid of
        None \<Rightarrow> False
      | Some p \<Rightarrow> terminal (Status (heap r ! p)) \<and> \<not> terminal status)"
| "regresses r (OpCreateTask unixNano now) = False"
| "regresses r (OpAddObject taskID url unixNano) = False"
| "regresses r (OpGetTask tid) = False"
| "regresses r OpGetAllTasks = False"

fun no_regress :: "TaskRepository \<Rightarrow> op list \<Rightarrow> bool" where
  "no_regress r [] = True"
| "no_regress r (x # xs) = (\<not> regresses r x \<and> no_regress (step r x) xs)"

text \<open>Every pointer stored in the map denotes an allocated object.\<close>

definition wf :: "TaskRepository \<Rightarrow> bool" where
  "wf r = list_all (\<lambda>kp. snd kp < length (heap r)) (tasks r)"

text \<open>
  The number of allocated tasks whose status is not terminal, and the invariant that ties
  the counter to it.
\<close>

definition count_active :: "Task list \<Rightarrow> nat" where
  "count_active h = length (filter (\<lambda>t. \<not> terminal (Status t)) h)"

definition registry_inv :: "TaskRepository \<Rightarrow> bool" where
  "registry_inv r =
     (wf r \<and> sint (activeTasks r) = int (count_active (heap r)) \<and>
      sint (activeTasks r) \<le> sint (maxTasks r))"

section \<open>Lifecycle engine (package usecase)\<close>

text \<open>
  The use case holds the registry behind an interface and a storage directory;
  \<open>CreateTaskUsecase\<close> replaces an empty directory by the default one.
\<close>

definition CreateTaskUsecase :: "string \<Rightarrow> string" where
  "CreateTaskUsecase storagePath = (if storagePath = [] then ''./storage'' else storagePath)"

definition TaskUsecase_CreateTask ::
  "TaskRepository \<Rightarrow> int64 \<Rightarrow> Time \<Rightarrow> TaskRepository \<times> (error + nat)" where
  "TaskUsecase_CreateTask r unixNano now = TaskRepository_CreateTask r unixNano now"


text \<open>
  \<open>AddObject\<close> first calls the registry, which returns the pointer \<open>task\<close> and releases
  its mutex; then it evaluates \<open>len(task.Objects) == 3\<close> through that pointer and, when
  it holds, runs \<open>go u.ProcessTask(ctx, task.ID)\<close>. \<open>trigger_check\<close> is that second
  step, on the registry state at the moment the condition is evaluated; its result is the
  id handed to the new goroutine, if one is started. \<open>TaskUsecase_AddObject\<close> is the
  call with nothing running between its two steps.
\<close>

definition trigger_check :: "TaskRepository \<Rightarrow> nat \<Rightarrow> int64 option" where
  "trigger_check r p =
     (if length (Objects (heap r ! p)) = 3 then Some (ID (heap r ! p)) else None)"

definition TaskUsecase_AddObject ::
  "TaskRepository \<Rightarrow> int64 \<Rightarrow> string \<Rightarrow> int64 \<Rightarrow> TaskRepository \<times> (error + nat) \<times> int64 option" where
  "TaskUsecase_AddObject r taskID url unixNano =
     (case TaskRepository_AddObject r taskID url unixNano of
        (r', Inl err) \<Rightarrow> (r', Inl err, None)
      | (r', Inr p) \<Rightarrow> (r', Inr p, trigger_check r' p))"

text \<open>
  What one pass of the download loop does with an object: \<open>http.Get\<close> fails, the status
  is not 200, \<open>zipWriter.Create\<close> fails, \<open>io.Copy\<close> fails (each a \<open>continue\<close>), or the
  payload is written and \<open>successCount\<close> is incremented. The network decides; it is an
  argument, asked with the position of the object and its URL.
\<close>

datatype fetch_result = GetFailed | BadStatus | ArchiveEntryFailed | CopyFailed | Fetched

fun download_all :: "(nat \<Rightarrow> string \<Rightarrow> fetch_result) \<Rightarrow> nat \<Rightarrow> Object list \<Rightarrow> nat \<Rightarrow> nat" where
  "download_all net i [] successCount = successCount"
| "download_all net i (obj # objs) successCount =
     (case net i (URL obj) of
        GetFailed \<Rightarrow> download_all net (Suc i) objs successCount
      | BadStatus \<Rightarrow> download_all net (Suc i) objs successCount
      | ArchiveEntryFailed \<Rightarrow> download_all net (Suc i) objs successCount
      | CopyFailed \<Rightarrow> download_all net (Suc i) objs successCount
      | Fetched \<Rightarrow> download_all net (Suc i) objs (successCount + 1))"

text \<open>
  A file path is a directory and an element, as \<open>filepath.Join\<close> receives them. The file
  system is the set of paths at which a file exists: \<open>os.Create\<close> either fails and changes
  nothing or leaves a file at the path, and \<open>os.Remove\<close> of the file just created takes it
  away (its result is ignored by the code).
\<close>

type_synonym path = "string \<times> string"

definition zipPath :: "string \<Rightarrow> int64 \<Rightarrow> path" where
  "zipPath storagePath taskID = (storagePath, ''task_'' @ dec_int (sint taskID) @ ''.zip'')"

definition TaskUsecase_ProcessTask ::
  "string \<Rightarrow> bool \<Rightarrow> (nat \<Rightarrow> string \<Rightarrow> fetch_result) \<Rightarrow>
   TaskRepository \<times> path set \<Rightarrow> int64 \<Rightarrow> TaskRepository \<times> path set" where
  "TaskUsecase_ProcessTask storagePath createOk net w taskID =
     (case TaskRepository_UpdateTaskStatus (fst w) taskID StatusProcessing of
        (r1, Some err) \<Rightarrow> (r1, snd w)
      | (r1, None) \<Rightarrow>
          (case TaskRepository_GetTask r1 taskID of
             Inl err \<Rightarrow> (r1, snd w)
           | Inr task \<Rightarrow>
               if \<not> createOk
               then (fst (TaskRepository_UpdateTaskStatus r1 taskID StatusFailed), snd w)
               else
                 let files = insert (zipPath storagePath taskID) (snd w);
                     successCount = download_all net 0 (Objects (heap r1 ! task)) 0
                 in if successCount = 0
                    then (fst (TaskRepository_UpdateTaskStatus r1 taskID StatusFailed),
                          files - {zipPath storagePath taskID})
                    else (fst (TaskRepository_UpdateTaskStatus r1 taskID StatusDone), files)))"

section \<open>Bulk attach (package delivery)\<close>








section \<open>Concurrent calls of the use case's \<open>AddObject\<close>\<close>

text \<open>
  The handler runs the calls of one batch in goroutines of their own. A call has two
  steps, and other calls may run between them: \<open>Enter g\<close> is goroutine \<open>g\<close> inside the
  registry's \<open>AddObject\<close>, after which it holds the pointer returned; \<open>Decide g\<close> is
  goroutine \<open>g\<close> evaluating \<open>len(task.Objects) == 3\<close> through that pointer and starting
  \<open>ProcessTask\<close> when it holds. The state is the registry, the pointers held by the
  goroutines between their two steps, and the ids for which processing was started.
\<close>

datatype event = Enter nat int64 string int64 | Decide nat

fun AddObject_event ::
  "TaskRepository \<times> (nat \<times> nat) list \<times> int64 list \<Rightarrow> event \<Rightarrow>
   TaskRepository \<times> (nat \<times> nat) list \<times> int64 list" where
  "AddObject_event (r, held, started) (Enter g taskID url unixNano) =
     (case TaskRepository_AddObject r taskID url unixNano of
        (r', Inl err) \<Rightarrow> (r', held, started)
      | (r', Inr task) \<Rightarrow> (r', AList.update g task held, started))"
| "AddObject_event (r, held, started) (Decide g) =
     (case map_of held g of
        None \<Rightarrow> (r, held, started)
      | Some task \<Rightarrow>
          (r, AList.delete g held,
           started @ (case trigger_check r task of None \<Rightarrow> [] | Some t \<Rightarrow> [t])))"

fun AddObject_events ::
  "TaskRepository \<times> (nat \<times> nat) list \<times> int64 list \<Rightarrow> event list \<Rightarrow>
   TaskRepository \<times> (nat \<times> nat) list \<times> int64 list" where
  "AddObject_events s [] = s"
| "AddObject_events s (e # es) = AddObject_events (AddObject_event s e) es"

section \<open>Example inputs\<close>

definition url_a :: string where
  "url_a = ''http://example.com/a.jpg''"

definition url_b :: string where
  "url_b = ''http://example.com/b.pdf''"

definition url_c :: string where
  "url_c = ''http://example.com/c.docx''"

definition url_d :: string where
  "url_d = ''http://example.com/D.JPEG''"

text \<open>A registry of capacity 2 with one empty task, with two, and with one task that holds three references.\<close>

definition example_one :: TaskRepository where
  "example_one = run (CreateTaskRepository 2) [OpCreateTask 7 100]"

definition example_two :: TaskRepository where
  "example_two = run (CreateTaskRepository 2) [OpCreateTask 7 100, OpCreateTask 8 101]"

definition example_full :: TaskRepository where
  "example_full = run (CreateTaskRepository 2)
     [OpCreateTask 7 100, OpAddObject 7 url_a 8, OpAddObject 7 url_c 9, OpAddObject 7 url_b 10,
      OpAddObject 7 url_d 11]"

text \<open>A task that is done, and three sequences of operations.\<close>

definition example_done :: TaskRepository where
  "example_done = run (CreateTaskRepository 2) [OpCreateTask 7 100, OpUpdateTaskStatus 7 StatusDone]"

definition ops_lifecycle :: "op list" where
  "ops_lifecycle =
     [OpCreateTask 7 100, OpAddObject 7 url_a 8, OpUpdateTaskStatus 7 StatusProcessing,
      OpUpdateTaskStatus 7 StatusDone, OpUpdateTaskStatus 7 StatusDone,
      OpUpdateTaskStatus 7 StatusFailed, OpGetTask 7, OpGetAllTasks,
      OpCreateTask 8 101, OpCreateTask 9 102, OpCreateTask 10 103]"

definition ops_regress :: "op list" where
  "ops_regress =
     [OpCreateTask 7 100, OpUpdateTaskStatus 7 StatusDone, OpUpdateTaskStatus 7 StatusWaiting,
      OpUpdateTaskStatus 7 StatusDone]"

definition ops_after_done :: "op list" where
  "ops_after_done =
     [OpUpdateTaskStatus 7 StatusFailed, OpAddObject 7 url_a 8, OpCreateTask 7 101,
      OpUpdateTaskStatus 7 StatusProcessing, OpGetTask 7, OpGetAllTasks]"

text \<open>A task that holds one reference.\<close>

definition example_one_ref :: TaskRepository where
  "example_one_ref = run (CreateTaskRepository 2) [OpCreateTask 7 100, OpAddObject 7 url_a 8]"

text \<open>Two networks: nothing can be fetched; only the second object can.\<close>

definition net_down :: "nat \<Rightarrow> string \<Rightarrow> fetch_result" where
  "net_down i url = GetFailed"

definition net_second :: "nat \<Rightarrow> string \<Rightarrow> fetch_result" where
  "net_second i url = (if i = 1 then Fetched else BadStatus)"


section \<open>Validator: properties\<close>

lemma of_char_to_lower_byte:
  "(of_char (to_lower_byte c) :: nat) =
     (if 65 \<le> (of_char c :: nat) \<and> (of_char c :: nat) \<le> 90 then of_char c + 32 else of_char c)"
  by (simp add: to_lower_byte_def of_char_of)

lemma to_lower_byte_eq_dot: "to_lower_byte c = CHR ''.'' \<longleftrightarrow> c = CHR ''.''"
proof
  assume h: "to_lower_byte c = CHR ''.''"
  have "(of_char (to_lower_byte c) :: nat) = 46" using h by simp
  then have "(of_char c :: nat) = 46" by (simp add: of_char_to_lower_byte split: if_splits)
  then have "(of_char c :: nat) = of_char CHR ''.''" by simp
  then show "c = CHR ''.''" by (simp only: of_char_eq_iff)
next
  assume "c = CHR ''.''"
  then show "to_lower_byte c = CHR ''.''" by (simp add: to_lower_byte_def)
qed

lemma to_lower_byte_slash: "to_lower_byte CHR ''/'' = CHR ''/''"
  by (simp add: to_lower_byte_def)

text \<open>The loop returns a suffix of the path: either nothing or \<open>path[i:]\<close>.\<close>

lemma ext_loop_suffix: "suffix (ext_loop path n) path"
  by (induction n) (simp_all add: suffix_drop)

lemma Ext_suffix: "suffix (Ext path) path"
  by (simp add: Ext_def ext_loop_suffix)

text \<open>Behind a dot followed by bytes that are neither dots nor slashes, the loop stops at that dot.\<close>

lemma ext_loop_stops_at_dot:
  assumes "\<forall>c \<in> set s. c \<noteq> CHR ''/'' \<and> c \<noteq> CHR ''.''"
  shows "k \<le> length s \<Longrightarrow> ext_loop (q @ CHR ''.'' # s) (Suc (length q + k)) = CHR ''.'' # s"
proof (induction k)
  case 0
  then show ?case by (simp add: nth_append)
next
  case (Suc k)
  have nth: "(q @ CHR ''.'' # s) ! (Suc (length q + k)) = s ! k"
    by (simp add: nth_append)
  have "s ! k \<in> set s" using Suc.prems by simp
  then have "s ! k \<noteq> CHR ''/'' \<and> s ! k \<noteq> CHR ''.''" using assms by blast
  then have "ext_loop (q @ CHR ''.'' # s) (Suc (Suc (length q + k)))
               = ext_loop (q @ CHR ''.'' # s) (Suc (length q + k))"
    using nth by simp
  then show ?case using Suc by simp
qed

lemma Ext_dot_tail:
  assumes "\<forall>c \<in> set s. c \<noteq> CHR ''/'' \<and> c \<noteq> CHR ''.''"
  shows "Ext (q @ CHR ''.'' # s) = CHR ''.'' # s"
  using ext_loop_stops_at_dot [OF assms, of "length s" q] by (simp add: Ext_def)

lemma ToLower_Ext_of_suffix:
  assumes suf: "suffix (CHR ''.'' # t) (ToLower url)"
    and t: "\<forall>c \<in> set t. c \<noteq> CHR ''/'' \<and> c \<noteq> CHR ''.''"
  shows "ToLower (Ext url) = CHR ''.'' # t"
proof -
  from suf obtain q' where "map to_lower_byte url = q' @ CHR ''.'' # t"
    by (auto simp: suffix_def ToLower_def)
  then obtain q e where url: "url = q @ e" and e: "map to_lower_byte e = CHR ''.'' # t"
    by (auto simp: map_eq_append_conv)
  from e obtain c0 s where es: "e = c0 # s" and c0: "to_lower_byte c0 = CHR ''.''"
    and s: "map to_lower_byte s = t"
    by (auto simp: map_eq_Cons_conv)
  have c0': "c0 = CHR ''.''" using c0 by (simp add: to_lower_byte_eq_dot)
  have clean: "\<forall>c \<in> set s. c \<noteq> CHR ''/'' \<and> c \<noteq> CHR ''.''"
  proof
    fix c assume "c \<in> set s"
    then have "to_lower_byte c \<in> set t" using s by auto
    then have "to_lower_byte c \<noteq> CHR ''/'' \<and> to_lower_byte c \<noteq> CHR ''.''" using t by blast
    then show "c \<noteq> CHR ''/'' \<and> c \<noteq> CHR ''.''"
      using to_lower_byte_slash to_lower_byte_eq_dot by auto
  qed
  have "Ext url = CHR ''.'' # s"
    using Ext_dot_tail [OF clean, of q] url es c0' by simp
  then show ?thesis using s by (simp add: ToLower_def to_lower_byte_eq_dot)
qed

lemma allowedExtensions_dom:
  "allowedExtensions e \<noteq> None \<longleftrightarrow> e = ''.pdf'' \<or> e = ''.jpeg'' \<or> e = ''.jpg''"
  by (auto simp: allowedExtensions_def)

lemma ToLower_suffix: "suffix (ToLower (Ext url)) (ToLower url)"
  unfolding ToLower_def by (rule map_mono_suffix) (rule Ext_suffix)

lemma ValidateFileExtension_spec:
  "ValidateFileExtension url = (if spec_allowed_suffix url then None else Some ErrInvalidFileType)"
proof (cases "spec_allowed_suffix url")
  case True
  then have "allowedExtensions (ToLower (Ext url)) \<noteq> None"
    unfolding spec_allowed_suffix_def allowedExtensions_dom
    by (auto dest!: ToLower_Ext_of_suffix)
  then show ?thesis using True by (auto simp: ValidateFileExtension_def)
next
  case False
  have "allowedExtensions (ToLower (Ext url)) = None"
  proof (rule ccontr)
    assume "allowedExtensions (ToLower (Ext url)) \<noteq> None"
    then have "ToLower (Ext url) = ''.pdf'' \<or> ToLower (Ext url) = ''.jpeg'' \<or> ToLower (Ext url) = ''.jpg''"
      by (simp only: allowedExtensions_dom)
    then have "spec_allowed_suffix url"
      using ToLower_suffix [of url] by (auto simp: spec_allowed_suffix_def)
    then show False using False by simp
  qed
  then show ?thesis using False by (simp add: ValidateFileExtension_def)
qed

section \<open>Signed 64-bit arithmetic\<close>

lemma sint_succ:
  assumes "sint (a :: 64 word) < sint (m :: 64 word)"
  shows "sint (a + 1) = sint a + 1"
proof -
  have "sint m < 2 ^ 63" using sint_lt [of m] by simp
  moreover have "- (2 ^ 63) \<le> sint a" using sint_ge [of a] by simp
  ultimately have "signed_take_bit 63 (sint a + 1) = sint a + 1"
    using assms by (intro signed_take_bit_int_eq_self) auto
  then show ?thesis by (simp add: sint_word_ariths)
qed

lemma sint_pred:
  assumes "0 < sint (a :: 64 word)"
  shows "sint (a - 1) = sint a - 1"
proof -
  have "sint a < 2 ^ 63" using sint_lt [of a] by simp
  then have "signed_take_bit 63 (sint a - 1) = sint a - 1"
    using assms by (intro signed_take_bit_int_eq_self) auto
  then show ?thesis by (simp add: sint_word_ariths)
qed

section \<open>Registry: the counter invariant\<close>

lemma list_all_update:
  "list_all P al \<Longrightarrow> P (k, v) \<Longrightarrow> list_all P (AList.update k v al)"
  by (induction al) auto

lemma wf_lookup: "wf r \<Longrightarrow> map_of (tasks r) k = Some p \<Longrightarrow> p < length (heap r)"
  by (auto simp: wf_def list_all_iff dest!: map_of_SomeD)

lemma filter_length_update:
  "p < length xs \<Longrightarrow>
     length (filter P (xs[p := y])) + (if P (xs ! p) then 1 else 0)
       = length (filter P xs) + (if P y then 1 else 0)"
proof (induction xs arbitrary: p)
  case Nil
  then show ?case by simp
next
  case (Cons x xs)
  then show ?case by (cases p) auto
qed

lemma nonterminal_iff: "(s = StatusWaiting \<or> s = StatusProcessing) \<longleftrightarrow> \<not> terminal s"
  by (cases s) (simp_all add: terminal_def)

lemma maxTasks_step: "maxTasks (step r x) = maxTasks r"
  by (cases x)
     (auto simp: TaskRepository_CreateTask_def TaskRepository_AddObject_def
        TaskRepository_UpdateTaskStatus_def Let_def split: option.splits)

lemma maxTasks_run: "maxTasks (run r ops) = maxTasks r"
  by (induction ops arbitrary: r) (simp_all add: maxTasks_step)

lemma inv_CreateTask: "registry_inv r \<Longrightarrow> registry_inv (fst (TaskRepository_CreateTask r u now))"
proof (cases "sint (maxTasks r) \<le> sint (activeTasks r)")
  case True
  assume "registry_inv r"
  then show ?thesis using True by (simp add: TaskRepository_CreateTask_def)
next
  case False
  assume i: "registry_inv r"
  from False have lt: "sint (activeTasks r) < sint (maxTasks r)" by simp
  have s: "sint (activeTasks r + 1) = sint (activeTasks r) + 1" by (rule sint_succ [OF lt])
  have "list_all (\<lambda>kp. snd kp < Suc (length (heap r))) (tasks r)"
    using i by (auto simp: registry_inv_def wf_def list_all_iff)
  then have "list_all (\<lambda>kp. snd kp < Suc (length (heap r)))
               (AList.update u (length (heap r)) (tasks r))"
    by (rule list_all_update) simp
  then have w: "wf (fst (TaskRepository_CreateTask r u now))"
    using False by (simp add: wf_def TaskRepository_CreateTask_def Let_def)
  show ?thesis
    using i False lt s w
    by (simp add: registry_inv_def TaskRepository_CreateTask_def Let_def count_active_def terminal_def)
qed

lemma inv_AddObject: "registry_inv r \<Longrightarrow> registry_inv (fst (TaskRepository_AddObject r k url u))"
proof -
  assume i: "registry_inv r"
  show ?thesis
  proof (cases "map_of (tasks r) k")
    case None
    then show ?thesis using i by (simp add: TaskRepository_AddObject_def)
  next
    case (Some p)
    have p: "p < length (heap r)" using i Some by (auto simp: registry_inv_def intro: wf_lookup)
    have c: "count_active ((heap r)[p := (heap r ! p)\<lparr>Objects := Objects (heap r ! p) @ [ob]\<rparr>])
               = count_active (heap r)" for ob
      using filter_length_update [OF p, of "\<lambda>t. \<not> terminal (Status t)"
          "(heap r ! p)\<lparr>Objects := Objects (heap r ! p) @ [ob]\<rparr>"]
      by (simp add: count_active_def)
    show ?thesis
      using i Some c
      by (auto simp: registry_inv_def wf_def TaskRepository_AddObject_def Let_def split: option.splits)
  qed
qed

lemma inv_UpdateTaskStatus:
  assumes i: "registry_inv r" and n: "\<not> regresses r (OpUpdateTaskStatus k s)"
  shows "registry_inv (fst (TaskRepository_UpdateTaskStatus r k s))"
proof (cases "map_of (tasks r) k")
  case None
  then show ?thesis using i by (simp add: TaskRepository_UpdateTaskStatus_def)
next
  case (Some p)
  have p: "p < length (heap r)" using i Some by (auto simp: registry_inv_def intro: wf_lookup)
  let ?old = "Status (heap r ! p)"
  let ?h = "(heap r)[p := (heap r ! p)\<lparr>Status := s\<rparr>]"
  have c: "count_active ?h + (if \<not> terminal ?old then 1 else 0)
             = count_active (heap r) + (if \<not> terminal s then 1 else 0)"
    using filter_length_update [OF p, of "\<lambda>t. \<not> terminal (Status t)" "(heap r ! p)\<lparr>Status := s\<rparr>"]
    by (simp add: count_active_def)
  have nr: "\<not> (terminal ?old \<and> \<not> terminal s)" using n Some by simp
  have a: "sint (activeTasks r) = int (count_active (heap r))"
    and b: "sint (activeTasks r) \<le> sint (maxTasks r)" and w: "wf r"
    using i by (simp_all add: registry_inv_def)
  show ?thesis
  proof (cases "terminal s \<and> \<not> terminal ?old")
    case True
    then have pos: "0 < sint (activeTasks r)" using a c by simp
    have d: "sint (activeTasks r - 1) = sint (activeTasks r) - 1" by (rule sint_pred [OF pos])
    have br: "(s = StatusDone \<or> s = StatusFailed) \<and> (?old = StatusWaiting \<or> ?old = StatusProcessing)"
      using True by (cases s; cases "Status (heap r ! p)") (simp_all add: terminal_def)
    have e: "fst (TaskRepository_UpdateTaskStatus r k s)
               = r\<lparr>heap := ?h, activeTasks := activeTasks r - 1\<rparr>"
      using Some br by (simp add: TaskRepository_UpdateTaskStatus_def Let_def)
    show ?thesis
      unfolding e using a b c d True w by (simp add: registry_inv_def wf_def)
  next
    case False
    then have br: "\<not> ((s = StatusDone \<or> s = StatusFailed) \<and> (?old = StatusWaiting \<or> ?old = StatusProcessing))"
      by (cases s; cases "Status (heap r ! p)") (simp_all add: terminal_def)
    have e: "fst (TaskRepository_UpdateTaskStatus r k s) = r\<lparr>heap := ?h\<rparr>"
      using Some br by (simp add: TaskRepository_UpdateTaskStatus_def Let_def)
    have "count_active ?h = count_active (heap r)"
      using c False nr by (cases "terminal s"; cases "terminal ?old") simp_all
    then show ?thesis
      unfolding e using a b w by (simp add: registry_inv_def wf_def)
  qed
qed

lemma inv_step: "registry_inv r \<Longrightarrow> \<not> regresses r x \<Longrightarrow> registry_inv (step r x)"
  by (cases x) (simp_all add: inv_CreateTask inv_AddObject inv_UpdateTaskStatus)

lemma inv_run: "registry_inv r \<Longrightarrow> no_regress r ops \<Longrightarrow> registry_inv (run r ops)"
  by (induction ops arbitrary: r) (simp_all add: inv_step)

lemma inv_fresh: "0 \<le> sint mx \<Longrightarrow> registry_inv (CreateTaskRepository mx)"
  by (simp add: registry_inv_def wf_def CreateTaskRepository_def count_active_def)

section \<open>Evaluating the examples\<close>

lemma valid_url_a: "ValidateFileExtension url_a = None"
  unfolding url_a_def by code_simp
lemma valid_url_b: "ValidateFileExtension url_b = None"
  unfolding url_b_def by code_simp
lemma invalid_url_c: "ValidateFileExtension url_c = Some ErrInvalidFileType"
  unfolding url_c_def by code_simp
lemma valid_url_d: "ValidateFileExtension url_d = None"
  unfolding url_d_def by code_simp

lemmas registry_defs =
  CreateTaskRepository_def TaskRepository_CreateTask_def TaskRepository_AddObject_def
  TaskRepository_UpdateTaskStatus_def TaskRepository_GetTask_def TaskRepository_GetAllTasks_def
  GetMaxTasks_def GetActiveTasksCount_def ValidateObjectLimit_def maxObjectsPerTask_def Let_def

lemma suffix_url_d: "spec_allowed_suffix url_d"
  unfolding url_d_def by code_simp

lemma not_suffix_url_c: "\<not> spec_allowed_suffix url_c"
  unfolding url_c_def by code_simp

lemma example_one_eval:
  "example_one = \<lparr>heap = [\<lparr>ID = 7, Status = StatusWaiting, Objects = [], CreatedAt = 100\<rparr>],
                   tasks = [(7, 0)], activeTasks = 1, maxTasks = 2\<rparr>"
  by (simp add: example_one_def registry_defs)

lemma example_full_eval:
  "example_full =
     \<lparr>heap = [\<lparr>ID = 7, Status = StatusWaiting,
               Objects = [\<lparr>ObjectID = 8, URL = url_a, Error = []\<rparr>,
                          \<lparr>ObjectID = 10, URL = url_b, Error = []\<rparr>,
                          \<lparr>ObjectID = 11, URL = url_d, Error = []\<rparr>],
               CreatedAt = 100\<rparr>],
      tasks = [(7, 0)], activeTasks = 1, maxTasks = 2\<rparr>"
  by (simp add: example_full_def registry_defs valid_url_a valid_url_b invalid_url_c valid_url_d)

lemma example_two_eval:
  "example_two = \<lparr>heap = [\<lparr>ID = 7, Status = StatusWaiting, Objects = [], CreatedAt = 100\<rparr>,
                           \<lparr>ID = 8, Status = StatusWaiting, Objects = [], CreatedAt = 101\<rparr>],
                   tasks = [(7, 0), (8, 1)], activeTasks = 2, maxTasks = 2\<rparr>"
  by (simp add: example_two_def registry_defs)

section \<open>The extension check\<close>

lemma Ext_query: "Ext (q @ ''document.pdf?token=abc'') = ''.pdf?token=abc''"
  using Ext_dot_tail [of "''pdf?token=abc''" "q @ ''document''"] by simp

lemma ToLower_query: "ToLower ''.pdf?token=abc'' = ''.pdf?token=abc''"
  by code_simp

text \<open>
  Claim C4. \<open>ValidateFileExtension\<close> succeeds exactly when the lower-cased string ends in
  \<open>.pdf\<close>, \<open>.jpeg\<close> or \<open>.jpg\<close>, and returns \<open>ErrInvalidFileType\<close> for every other
  input: the empty string, a name without extension, and any URL that ends in
  \<open>document.pdf?token=abc\<close>, since the query string is part of the suffix inspected.
\<close>

theorem C4_extension_check:
  "ValidateFileExtension url = (if spec_allowed_suffix url then None else Some ErrInvalidFileType)
   \<and> ValidateFileExtension (q @ ''document.pdf?token=abc'') = Some ErrInvalidFileType
   \<and> ValidateFileExtension [] = Some ErrInvalidFileType
   \<and> ValidateFileExtension ''README'' = Some ErrInvalidFileType"
proof (intro conjI)
  show "ValidateFileExtension url = (if spec_allowed_suffix url then None else Some ErrInvalidFileType)"
    by (rule ValidateFileExtension_spec)
  show "ValidateFileExtension (q @ ''document.pdf?token=abc'') = Some ErrInvalidFileType"
    by (simp add: ValidateFileExtension_def Ext_query ToLower_query allowedExtensions_def)
  show "ValidateFileExtension [] = Some ErrInvalidFileType"
    by code_simp
  show "ValidateFileExtension ''README'' = Some ErrInvalidFileType"
    by code_simp
qed

theorem C4_extension_check_witness:
  "ValidateFileExtension url_d = None
   \<and> ValidateFileExtension (''https://example.com/'' @ ''document.pdf?token=abc'') = Some ErrInvalidFileType
   \<and> ValidateFileExtension url_c = Some ErrInvalidFileType"
  using C4_extension_check [of url_d "''https://example.com/''"] C4_extension_check [of url_c "[]"]
    suffix_url_d not_suffix_url_c
  by simp

section \<open>Adding a reference\<close>

text \<open>
  Claim C5. For a registered task that holds three references (or more), \<open>AddObject\<close>
  returns \<open>ErrMaxObjectsReached\<close> whatever the URL and leaves the registry as it was: the
  count is checked before the extension. Below the cap, a URL whose extension is not allowed
  gives \<open>ErrInvalidFileType\<close>.
\<close>

theorem C5_count_before_extension:
  assumes "map_of (tasks r) taskID = Some p"
  shows "(length (Objects (heap r ! p)) \<ge> 3 \<longrightarrow>
            TaskRepository_AddObject r taskID url unixNano = (r, Inl ErrMaxObjectsReached))
       \<and> (length (Objects (heap r ! p)) < 3 \<and> \<not> spec_allowed_suffix url \<longrightarrow>
            TaskRepository_AddObject r taskID url unixNano = (r, Inl ErrInvalidFileType))"
  using assms
  by (simp add: TaskRepository_AddObject_def ValidateObjectLimit_def maxObjectsPerTask_def
        Let_def ValidateFileExtension_spec)

theorem C5_count_before_extension_witness:
  "TaskRepository_AddObject example_full 7 url_b 12 = (example_full, Inl ErrMaxObjectsReached)
   \<and> TaskRepository_AddObject example_full 7 url_c 12 = (example_full, Inl ErrMaxObjectsReached)
   \<and> TaskRepository_AddObject example_one 7 url_c 12 = (example_one, Inl ErrInvalidFileType)"
proof -
  have f: "map_of (tasks example_full) 7 = Some 0" and o: "map_of (tasks example_one) 7 = Some 0"
    by (simp_all add: example_full_eval example_one_eval)
  have lf: "length (Objects (heap example_full ! 0)) = 3" by (simp add: example_full_eval)
  have lo: "length (Objects (heap example_one ! 0)) = 0" by (simp add: example_one_eval)
  show ?thesis
    using C5_count_before_extension [OF f, of url_b 12] C5_count_before_extension [OF f, of url_c 12]
      C5_count_before_extension [OF o, of url_c 12] lf lo not_suffix_url_c
    by simp
qed

text \<open>
  Claim C10. When \<open>AddObject\<close> fails, with \<open>ErrTaskNotFound\<close>, \<open>ErrMaxObjectsReached\<close> or
  \<open>ErrInvalidFileType\<close>, the registry is exactly the one before the call: no reference is
  appended to any task, no status and no counter changes.
\<close>

theorem C10_AddObject_error_leaves_state:
  assumes "TaskRepository_AddObject r taskID url unixNano = (r', Inl e)"
  shows "r' = r \<and> (e = ErrTaskNotFound \<or> e = ErrMaxObjectsReached \<or> e = ErrInvalidFileType)"
  using assms
  by (auto simp: TaskRepository_AddObject_def ValidateObjectLimit_def ValidateFileExtension_def
        Let_def split: option.splits if_splits)

theorem C10_AddObject_error_leaves_state_witness:
  "TaskRepository_AddObject example_one 9 url_a 12 = (example_one, Inl ErrTaskNotFound)
   \<and> TaskRepository_AddObject example_full 7 url_a 12 = (example_full, Inl ErrMaxObjectsReached)
   \<and> TaskRepository_AddObject example_one 7 url_c 12 = (example_one, Inl ErrInvalidFileType)"
proof -
  have a: "snd (TaskRepository_AddObject example_one 9 url_a 12) = Inl ErrTaskNotFound"
    by (simp add: example_one_eval registry_defs)
  have b: "snd (TaskRepository_AddObject example_full 7 url_a 12) = Inl ErrMaxObjectsReached"
    by (simp add: example_full_eval registry_defs)
  have c: "snd (TaskRepository_AddObject example_one 7 url_c 12) = Inl ErrInvalidFileType"
    by (simp add: example_one_eval registry_defs invalid_url_c)
  show ?thesis
    using C10_AddObject_error_leaves_state
        [of example_one 9 url_a 12 "fst (TaskRepository_AddObject example_one 9 url_a 12)" ErrTaskNotFound]
      C10_AddObject_error_leaves_state
        [of example_full 7 url_a 12 "fst (TaskRepository_AddObject example_full 7 url_a 12)" ErrMaxObjectsReached]
      C10_AddObject_error_leaves_state
        [of example_one 7 url_c 12 "fst (TaskRepository_AddObject example_one 7 url_c 12)" ErrInvalidFileType]
      a b c
    by (metis prod.collapse)
qed

section \<open>Creating a task\<close>

text \<open>
  Claim C6. Below the maximum, \<open>CreateTask\<close> returns a new task with status
  \<open>waiting\<close>, no references and the creation time read from the clock, registers it under
  its id, and increments the active count by exactly one. When the active count has reached
  the maximum it fails with \<open>ErrMaxTasksReached\<close> and changes nothing.
\<close>

theorem C6_CreateTask:
  "(sint (activeTasks r) < sint (maxTasks r) \<longrightarrow>
      snd (TaskRepository_CreateTask r unixNano now) = Inr (length (heap r))
      \<and> heap (fst (TaskRepository_CreateTask r unixNano now)) ! length (heap r)
          = \<lparr>ID = unixNano, Status = StatusWaiting, Objects = [], CreatedAt = now\<rparr>
      \<and> map_of (tasks (fst (TaskRepository_CreateTask r unixNano now))) unixNano = Some (length (heap r))
      \<and> sint (GetActiveTasksCount (fst (TaskRepository_CreateTask r unixNano now)))
          = sint (GetActiveTasksCount r) + 1)
   \<and> (sint (maxTasks r) \<le> sint (activeTasks r) \<longrightarrow>
        TaskRepository_CreateTask r unixNano now
          = (r, Inl (ErrMaxTasksReached (activeTasks r) (maxTasks r))))"
proof (intro conjI impI)
  assume lt: "sint (activeTasks r) < sint (maxTasks r)"
  then have e: "TaskRepository_CreateTask r unixNano now =
      (r\<lparr>heap := heap r @ [\<lparr>ID = unixNano, Status = StatusWaiting, Objects = [], CreatedAt = now\<rparr>],
         tasks := AList.update unixNano (length (heap r)) (tasks r),
         activeTasks := activeTasks r + 1\<rparr>, Inr (length (heap r)))"
    by (simp add: TaskRepository_CreateTask_def Let_def)
  show "snd (TaskRepository_CreateTask r unixNano now) = Inr (length (heap r))"
    by (simp add: e)
  show "heap (fst (TaskRepository_CreateTask r unixNano now)) ! length (heap r)
          = \<lparr>ID = unixNano, Status = StatusWaiting, Objects = [], CreatedAt = now\<rparr>"
    by (simp add: e)
  show "map_of (tasks (fst (TaskRepository_CreateTask r unixNano now))) unixNano = Some (length (heap r))"
    by (simp add: e update_conv')
  show "sint (GetActiveTasksCount (fst (TaskRepository_CreateTask r unixNano now)))
          = sint (GetActiveTasksCount r) + 1"
    using sint_succ [OF lt] by (simp add: e GetActiveTasksCount_def)
next
  assume "sint (maxTasks r) \<le> sint (activeTasks r)"
  then show "TaskRepository_CreateTask r unixNano now
          = (r, Inl (ErrMaxTasksReached (activeTasks r) (maxTasks r)))"
    by (simp add: TaskRepository_CreateTask_def)
qed

theorem C6_CreateTask_witness:
  "snd (TaskRepository_CreateTask example_one 8 101) = Inr 1
   \<and> heap (fst (TaskRepository_CreateTask example_one 8 101)) ! 1
        = \<lparr>ID = 8, Status = StatusWaiting, Objects = [], CreatedAt = 101\<rparr>
   \<and> map_of (tasks (fst (TaskRepository_CreateTask example_one 8 101))) 8 = Some 1
   \<and> sint (GetActiveTasksCount (fst (TaskRepository_CreateTask example_one 8 101))) = 2
   \<and> TaskRepository_CreateTask example_two 9 102 = (example_two, Inl (ErrMaxTasksReached 2 2))"
proof -
  have a: "sint (activeTasks example_one) < sint (maxTasks example_one)"
    by (simp add: example_one_eval)
  have b: "sint (maxTasks example_two) \<le> sint (activeTasks example_two)"
    by (simp add: example_two_eval)
  have c: "length (heap example_one) = 1" "sint (GetActiveTasksCount example_one) = 1"
    "activeTasks example_two = 2" "maxTasks example_two = 2"
    by (simp_all add: example_one_eval example_two_eval GetActiveTasksCount_def)
  show ?thesis
    using C6_CreateTask [of example_one 8 101] C6_CreateTask [of example_two 9 102] a b c
    by simp
qed

section \<open>The active-task counter\<close>

lemma example_done_eval:
  "example_done = \<lparr>heap = [\<lparr>ID = 7, Status = StatusDone, Objects = [], CreatedAt = 100\<rparr>],
                    tasks = [(7, 0)], activeTasks = 0, maxTasks = 2\<rparr>"
  by (simp add: example_done_def registry_defs)

lemma ops_lifecycle_no_regress: "no_regress (CreateTaskRepository 2) ops_lifecycle"
  by (simp add: ops_lifecycle_def registry_defs valid_url_a terminal_def)

lemma ops_lifecycle_eval:
  "run (CreateTaskRepository 2) ops_lifecycle =
     \<lparr>heap = [\<lparr>ID = 7, Status = StatusFailed,
               Objects = [\<lparr>ObjectID = 8, URL = url_a, Error = []\<rparr>], CreatedAt = 100\<rparr>,
              \<lparr>ID = 8, Status = StatusWaiting, Objects = [], CreatedAt = 101\<rparr>,
              \<lparr>ID = 9, Status = StatusWaiting, Objects = [], CreatedAt = 102\<rparr>],
      tasks = [(7, 0), (8, 1), (9, 2)], activeTasks = 2, maxTasks = 2\<rparr>"
  by (simp add: ops_lifecycle_def registry_defs valid_url_a)

text \<open>
  Claim C1, as the code has it. \<open>UpdateTaskStatus\<close> stores any status it is given, so a
  task that is done can be set back to \<open>waiting\<close> and then to \<open>done\<close> again, and each
  passage to a terminal status decrements the counter. For a registry created with a
  maximum that is not negative, and a sequence of operations in which no
  \<open>UpdateTaskStatus\<close> asks for a non-terminal status on a task whose status is terminal,
  the counter stays between 0 and the maximum. In every state, \<open>CreateTask\<close> at
  \<open>ActiveCount() = Capacity()\<close> fails with \<open>ErrMaxTasksReached\<close> and leaves the
  registry unchanged, and \<open>UpdateTaskStatus\<close> on a task whose status is terminal never
  changes the counter.
\<close>

theorem C1_active_count_bounds:
  "(0 \<le> sint mx \<and> no_regress (CreateTaskRepository mx) ops \<longrightarrow>
       0 \<le> sint (GetActiveTasksCount (run (CreateTaskRepository mx) ops))
     \<and> sint (GetActiveTasksCount (run (CreateTaskRepository mx) ops))
         \<le> sint (GetMaxTasks (run (CreateTaskRepository mx) ops))
     \<and> GetMaxTasks (run (CreateTaskRepository mx) ops) = mx)
   \<and> (GetActiveTasksCount r = GetMaxTasks r \<longrightarrow>
        TaskRepository_CreateTask r unixNano now
          = (r, Inl (ErrMaxTasksReached (activeTasks r) (maxTasks r))))
   \<and> (map_of (tasks r) tid = Some p \<and> terminal (Status (heap r ! p)) \<longrightarrow>
        GetActiveTasksCount (fst (TaskRepository_UpdateTaskStatus r tid status))
          = GetActiveTasksCount r)"
proof (intro conjI impI)
  assume h: "0 \<le> sint mx \<and> no_regress (CreateTaskRepository mx) ops"
  have i: "registry_inv (run (CreateTaskRepository mx) ops)"
    using h by (intro inv_run inv_fresh) simp_all
  show m: "GetMaxTasks (run (CreateTaskRepository mx) ops) = mx"
    by (simp add: GetMaxTasks_def maxTasks_run CreateTaskRepository_def)
  show "0 \<le> sint (GetActiveTasksCount (run (CreateTaskRepository mx) ops))"
    using i by (simp add: registry_inv_def GetActiveTasksCount_def)
  show "sint (GetActiveTasksCount (run (CreateTaskRepository mx) ops))
          \<le> sint (GetMaxTasks (run (CreateTaskRepository mx) ops))"
    using i by (simp add: registry_inv_def GetActiveTasksCount_def GetMaxTasks_def)
next
  assume "GetActiveTasksCount r = GetMaxTasks r"
  then show "TaskRepository_CreateTask r unixNano now
               = (r, Inl (ErrMaxTasksReached (activeTasks r) (maxTasks r)))"
    by (simp add: TaskRepository_CreateTask_def GetActiveTasksCount_def GetMaxTasks_def)
next
  assume "map_of (tasks r) tid = Some p \<and> terminal (Status (heap r ! p))"
  then show "GetActiveTasksCount (fst (TaskRepository_UpdateTaskStatus r tid status))
               = GetActiveTasksCount r"
    by (auto simp: TaskRepository_UpdateTaskStatus_def GetActiveTasksCount_def Let_def terminal_def)
qed

theorem C1_active_count_bounds_witness:
  "0 \<le> sint (GetActiveTasksCount (run (CreateTaskRepository 2) ops_lifecycle))
   \<and> sint (GetActiveTasksCount (run (CreateTaskRepository 2) ops_lifecycle)) \<le> 2
   \<and> TaskRepository_CreateTask example_two 9 102 = (example_two, Inl (ErrMaxTasksReached 2 2))
   \<and> GetActiveTasksCount (fst (TaskRepository_UpdateTaskStatus example_done 7 StatusFailed)) = 0"
proof -
  have a: "(0::int) \<le> sint (2 :: go_int)" by simp
  have b: "GetActiveTasksCount example_two = GetMaxTasks example_two"
    by (simp add: example_two_eval GetActiveTasksCount_def GetMaxTasks_def)
  have c: "map_of (tasks example_done) 7 = Some 0 \<and> terminal (Status (heap example_done ! 0))"
    by (simp add: example_done_eval terminal_def)
  have d: "activeTasks example_two = 2" "maxTasks example_two = 2"
    "GetActiveTasksCount example_done = 0"
    by (simp_all add: example_two_eval example_done_eval GetActiveTasksCount_def)
  show ?thesis
    using C1_active_count_bounds [of 2 ops_lifecycle example_two 9 102]
      C1_active_count_bounds [of _ _ example_done _ _ 7 0 StatusFailed]
      a b c d ops_lifecycle_no_regress
    by simp
qed

text \<open>
  The claim as stated fails: capacity 1, one task, \<open>done\<close>, back to \<open>waiting\<close>,
  \<open>done\<close> again; the counter is \<open>-1\<close>. It also fails in the fresh registry when
  the configured maximum is negative (\<open>MAX_ACTIVE_TASKS=-1\<close>): the counter, 0, is above it.
\<close>

theorem C1_active_count_counterexample:
  "\<not> (0 \<le> sint (GetActiveTasksCount (run (CreateTaskRepository 1) ops_regress))
      \<and> sint (GetActiveTasksCount (run (CreateTaskRepository 1) ops_regress))
          \<le> sint (GetMaxTasks (run (CreateTaskRepository 1) ops_regress)))
   \<and> sint (GetActiveTasksCount (run (CreateTaskRepository 1) ops_regress)) = - 1
   \<and> \<not> (sint (GetActiveTasksCount (run (CreateTaskRepository (- 1)) []))
          \<le> sint (GetMaxTasks (run (CreateTaskRepository (- 1)) [])))"
  by (simp add: ops_regress_def registry_defs)

section \<open>Status transitions\<close>

lemma terminal_step:
  assumes "p < length (heap r)" "terminal (Status (heap r ! p))" "\<not> regresses r x"
  shows "p < length (heap (step r x)) \<and> terminal (Status (heap (step r x) ! p))"
proof (cases x)
  case (OpCreateTask u now)
  then show ?thesis using assms
    by (simp add: TaskRepository_CreateTask_def Let_def nth_append)
next
  case (OpAddObject k url u)
  show ?thesis
  proof (cases "map_of (tasks r) k")
    case None
    then show ?thesis using assms OpAddObject by (simp add: TaskRepository_AddObject_def)
  next
    case (Some q)
    then show ?thesis using assms OpAddObject
      by (cases "q = p")
         (simp_all add: TaskRepository_AddObject_def Let_def split: option.splits)
  qed
next
  case (OpUpdateTaskStatus k s)
  show ?thesis
  proof (cases "map_of (tasks r) k")
    case None
    then show ?thesis using assms OpUpdateTaskStatus
      by (simp add: TaskRepository_UpdateTaskStatus_def)
  next
    case (Some q)
    then show ?thesis using assms OpUpdateTaskStatus
      by (cases "q = p") (simp_all add: TaskRepository_UpdateTaskStatus_def Let_def)
  qed
next
  case (OpGetTask k)
  then show ?thesis using assms by simp
next
  case OpGetAllTasks
  then show ?thesis using assms by simp
qed

lemma terminal_run:
  "p < length (heap r) \<Longrightarrow> terminal (Status (heap r ! p)) \<Longrightarrow> no_regress r ops \<Longrightarrow>
     p < length (heap (run r ops)) \<and> terminal (Status (heap (run r ops) ! p))"
proof (induction ops arbitrary: r)
  case Nil
  then show ?case by simp
next
  case (Cons x xs)
  have "p < length (heap (step r x)) \<and> terminal (Status (heap (step r x) ! p))"
    using Cons.prems by (intro terminal_step) simp_all
  then show ?case using Cons by simp
qed

text \<open>
  Claim C2, as the code has it. The registry enforces no state machine:
  \<open>UpdateTaskStatus\<close> on a registered task stores exactly the status it is given,
  whatever the current one. No other operation changes the status of an existing task, so
  a task whose status is terminal keeps a terminal status along every sequence of
  operations in which no \<open>UpdateTaskStatus\<close> asks for a non-terminal status on a task
  whose status is terminal.
\<close>

theorem C2_terminal_status_kept:
  "(p < length (heap r) \<and> terminal (Status (heap r ! p)) \<and> no_regress r ops \<longrightarrow>
      terminal (Status (heap (run r ops) ! p)))
   \<and> (map_of (tasks r) tid = Some p \<and> p < length (heap r) \<longrightarrow>
        Status (heap (fst (TaskRepository_UpdateTaskStatus r tid status)) ! p) = status)"
proof (intro conjI impI)
  assume "p < length (heap r) \<and> terminal (Status (heap r ! p)) \<and> no_regress r ops"
  then show "terminal (Status (heap (run r ops) ! p))"
    using terminal_run [of p r ops] by simp
next
  assume "map_of (tasks r) tid = Some p \<and> p < length (heap r)"
  then show "Status (heap (fst (TaskRepository_UpdateTaskStatus r tid status)) ! p) = status"
    by (simp add: TaskRepository_UpdateTaskStatus_def Let_def)
qed

lemma ops_after_done_no_regress: "no_regress example_done ops_after_done"
  by (simp add: ops_after_done_def example_done_eval registry_defs valid_url_a terminal_def)

theorem C2_terminal_status_kept_witness:
  "terminal (Status (heap (run example_done ops_after_done) ! 0))
   \<and> Status (heap (fst (TaskRepository_UpdateTaskStatus example_one 7 StatusDone)) ! 0) = StatusDone"
proof -
  have a: "0 < length (heap example_done) \<and> terminal (Status (heap example_done ! 0))"
    by (simp add: example_done_eval terminal_def)
  have b: "map_of (tasks example_one) 7 = Some 0 \<and> 0 < length (heap example_one)"
    by (simp add: example_one_eval)
  show ?thesis
    using C2_terminal_status_kept [of 0 example_done ops_after_done]
      C2_terminal_status_kept [of 0 example_one _ 7 StatusDone]
      a b ops_after_done_no_regress
    by simp
qed

text \<open>The claim as stated fails: a task that is done is set back to \<open>waiting\<close>.\<close>

theorem C2_status_regress_counterexample:
  "Status (heap (run (CreateTaskRepository 1) [OpCreateTask 7 100, OpUpdateTaskStatus 7 StatusDone]) ! 0)
     = StatusDone
   \<and> Status (heap (run (CreateTaskRepository 1)
        [OpCreateTask 7 100, OpUpdateTaskStatus 7 StatusDone, OpUpdateTaskStatus 7 StatusWaiting]) ! 0)
     = StatusWaiting"
  by (simp add: registry_defs)

section \<open>Task identifiers\<close>

text \<open>
  Claim C8 at two calls of \<open>CreateTask\<close> for which \<open>time.Now().UnixNano()\<close> reads the same
  value: both tasks get the id 1000, the second replaces the first in the map, which then
  lists one task, and the counter is 2.
\<close>

theorem C8_equal_clock_readings_equal_ids:
  "snd (TaskRepository_CreateTask (CreateTaskRepository 2) 1000 100) = Inr 0
   \<and> snd (TaskRepository_CreateTask (fst (TaskRepository_CreateTask (CreateTaskRepository 2) 1000 100)) 1000 101)
       = Inr 1
   \<and> ID (heap (run (CreateTaskRepository 2) [OpCreateTask 1000 100, OpCreateTask 1000 101]) ! 0) = 1000
   \<and> ID (heap (run (CreateTaskRepository 2) [OpCreateTask 1000 100, OpCreateTask 1000 101]) ! 1) = 1000
   \<and> TaskRepository_GetAllTasks (run (CreateTaskRepository 2) [OpCreateTask 1000 100, OpCreateTask 1000 101])
       = [1]
   \<and> GetActiveTasksCount (run (CreateTaskRepository 2) [OpCreateTask 1000 100, OpCreateTask 1000 101]) = 2"
  by (simp add: registry_defs)

section \<open>Archive processing\<close>

lemma UpdateTaskStatus_found:
  assumes "map_of (tasks r) k = Some p"
  shows "snd (TaskRepository_UpdateTaskStatus r k s) = None
       \<and> tasks (fst (TaskRepository_UpdateTaskStatus r k s)) = tasks r
       \<and> heap (fst (TaskRepository_UpdateTaskStatus r k s)) = (heap r)[p := (heap r ! p)\<lparr>Status := s\<rparr>]"
  using assms by (simp add: TaskRepository_UpdateTaskStatus_def Let_def)

lemma download_all_zero:
  "download_all net k objs c = 0 \<longleftrightarrow>
     c = 0 \<and> (\<forall>i<length objs. net (k + i) (URL (objs ! i)) \<noteq> Fetched)"
proof (induction objs arbitrary: k c)
  case Nil
  then show ?case by simp
next
  case (Cons obj objs)
  show ?case
    by (cases "net k (URL obj)") (auto simp: Cons.IH less_Suc_eq_0_disj)
qed

lemma example_full_tasks: "map_of (tasks example_full) 7 = Some 0" "0 < length (heap example_full)"
  "Objects (heap example_full ! 0) =
     [\<lparr>ObjectID = 8, URL = url_a, Error = []\<rparr>, \<lparr>ObjectID = 10, URL = url_b, Error = []\<rparr>,
      \<lparr>ObjectID = 11, URL = url_d, Error = []\<rparr>]"
  by (simp_all add: example_full_eval)

text \<open>
  \<open>ProcessTask\<close> on a registered task: the file system it leaves and the status it
  leaves, by the outcome of \<open>os.Create\<close> and the number of references fetched.
\<close>

lemma ProcessTask_registered:
  assumes "map_of (tasks r) taskID = Some p" and "p < length (heap r)"
  shows "snd (TaskUsecase_ProcessTask sp createOk net (r, files) taskID) =
           (if \<not> createOk then files
            else if download_all net 0 (Objects (heap r ! p)) 0 = 0
                 then insert (zipPath sp taskID) files - {zipPath sp taskID}
                 else insert (zipPath sp taskID) files)"
    and "Status (heap (fst (TaskUsecase_ProcessTask sp createOk net (r, files) taskID)) ! p) =
           (if \<not> createOk then StatusFailed
            else if download_all net 0 (Objects (heap r ! p)) 0 = 0 then StatusFailed
                 else StatusDone)"
proof -
  obtain r1 where u: "TaskRepository_UpdateTaskStatus r taskID StatusProcessing = (r1, None)"
    and t1: "tasks r1 = tasks r"
    and h1: "heap r1 = (heap r)[p := (heap r ! p)\<lparr>Status := StatusProcessing\<rparr>]"
    using UpdateTaskStatus_found [OF assms(1), of StatusProcessing]
    by (cases "TaskRepository_UpdateTaskStatus r taskID StatusProcessing") simp
  have m1: "map_of (tasks r1) taskID = Some p" using assms(1) t1 by simp
  have g: "TaskRepository_GetTask r1 taskID = Inr p"
    using m1 by (simp add: TaskRepository_GetTask_def)
  have objs: "Objects (heap r1 ! p) = Objects (heap r ! p)"
    using assms(2) h1 by simp
  have p1: "p < length (heap r1)" using assms(2) h1 by simp
  have fin: "Status (heap (fst (TaskRepository_UpdateTaskStatus r1 taskID s)) ! p) = s" for s
    using UpdateTaskStatus_found [OF m1, of s] p1 by simp
  have pt: "TaskUsecase_ProcessTask sp createOk net (r, files) taskID =
     (if \<not> createOk
      then (fst (TaskRepository_UpdateTaskStatus r1 taskID StatusFailed), files)
      else if download_all net 0 (Objects (heap r ! p)) 0 = 0
           then (fst (TaskRepository_UpdateTaskStatus r1 taskID StatusFailed),
                 insert (zipPath sp taskID) files - {zipPath sp taskID})
           else (fst (TaskRepository_UpdateTaskStatus r1 taskID StatusDone),
                 insert (zipPath sp taskID) files))"
    by (simp add: TaskUsecase_ProcessTask_def u g objs Let_def)
  show "snd (TaskUsecase_ProcessTask sp createOk net (r, files) taskID) =
           (if \<not> createOk then files
            else if download_all net 0 (Objects (heap r ! p)) 0 = 0
                 then insert (zipPath sp taskID) files - {zipPath sp taskID}
                 else insert (zipPath sp taskID) files)"
    unfolding pt by simp
  show "Status (heap (fst (TaskUsecase_ProcessTask sp createOk net (r, files) taskID)) ! p) =
           (if \<not> createOk then StatusFailed
            else if download_all net 0 (Objects (heap r ! p)) 0 = 0 then StatusFailed
                 else StatusDone)"
    unfolding pt using fin by simp
qed

text \<open>
  Claim C3, as the code has it. \<open>ProcessTask\<close> on a registered task, whose status updates
  and read-back therefore succeed. If \<open>os.Create\<close> fails, the final status is \<open>failed\<close>
  and the run leaves the file system exactly as it found it: it creates no archive, and
  it removes none, so an archive that was at the task's path before the run is still
  there. If the archive is created and no reference is fetched, the final status is
  \<open>failed\<close> and no file exists at the path. If at least one reference is fetched, the
  final status is \<open>done\<close> and the archive exists at the path.
\<close>

theorem C3_ProcessTask_outcomes:
  assumes "map_of (tasks r) taskID = Some p" and "p < length (heap r)"
  shows
    "(\<not> createOk \<longrightarrow>
        Status (heap (fst (TaskUsecase_ProcessTask sp createOk net (r, files) taskID)) ! p) = StatusFailed
      \<and> snd (TaskUsecase_ProcessTask sp createOk net (r, files) taskID) = files)
   \<and> (createOk \<and> (\<forall>i<length (Objects (heap r ! p)). net i (URL (Objects (heap r ! p) ! i)) \<noteq> Fetched) \<longrightarrow>
        Status (heap (fst (TaskUsecase_ProcessTask sp createOk net (r, files) taskID)) ! p) = StatusFailed
      \<and> zipPath sp taskID \<notin> snd (TaskUsecase_ProcessTask sp createOk net (r, files) taskID))
   \<and> (createOk \<and> (\<exists>i<length (Objects (heap r ! p)). net i (URL (Objects (heap r ! p) ! i)) = Fetched) \<longrightarrow>
        Status (heap (fst (TaskUsecase_ProcessTask sp createOk net (r, files) taskID)) ! p) = StatusDone
      \<and> zipPath sp taskID \<in> snd (TaskUsecase_ProcessTask sp createOk net (r, files) taskID))"
  unfolding ProcessTask_registered [OF assms]
  by (auto simp: download_all_zero)

theorem C3_ProcessTask_outcomes_witness:
  "Status (heap (fst (TaskUsecase_ProcessTask ''./storage'' False net_second
       (example_full, {zipPath ''./storage'' 7}) 7)) ! 0) = StatusFailed
   \<and> snd (TaskUsecase_ProcessTask ''./storage'' False net_second
       (example_full, {zipPath ''./storage'' 7}) 7) = {zipPath ''./storage'' 7}
   \<and> snd (TaskUsecase_ProcessTask ''./storage'' False net_second (example_full, {}) 7) = {}
   \<and> Status (heap (fst (TaskUsecase_ProcessTask ''./storage'' True net_down (example_full, {}) 7)) ! 0)
       = StatusFailed
   \<and> zipPath ''./storage'' 7 \<notin> snd (TaskUsecase_ProcessTask ''./storage'' True net_down (example_full, {}) 7)
   \<and> Status (heap (fst (TaskUsecase_ProcessTask ''./storage'' True net_second (example_full, {}) 7)) ! 0)
       = StatusDone
   \<and> zipPath ''./storage'' 7 \<in> snd (TaskUsecase_ProcessTask ''./storage'' True net_second (example_full, {}) 7)"
proof -
  have d: "\<forall>i<length (Objects (heap example_full ! 0)).
             net_down i (URL (Objects (heap example_full ! 0) ! i)) \<noteq> Fetched"
    by (simp add: net_down_def)
  have s: "\<exists>i<length (Objects (heap example_full ! 0)).
             net_second i (URL (Objects (heap example_full ! 0) ! i)) = Fetched"
    by (rule exI [of _ 1]) (simp add: net_second_def example_full_tasks)
  show ?thesis
    using C3_ProcessTask_outcomes [OF example_full_tasks(1,2), where createOk = False
          and files = "{zipPath ''./storage'' 7}" and sp = "''./storage''" and net = net_second]
      C3_ProcessTask_outcomes [OF example_full_tasks(1,2), where createOk = False and files = "{}"
          and sp = "''./storage''" and net = net_second]
      C3_ProcessTask_outcomes [OF example_full_tasks(1,2), where createOk = True and files = "{}"
          and sp = "''./storage''" and net = net_down]
      C3_ProcessTask_outcomes [OF example_full_tasks(1,2), where createOk = True and files = "{}"
          and sp = "''./storage''" and net = net_second]
      d s
    by simp
qed

text \<open>
  The claim as stated fails: the task's path already holds an archive and \<open>os.Create\<close>
  fails. The final status is \<open>failed\<close> and the archive is still at the path.
\<close>

theorem C3_stale_archive_counterexample:
  "Status (heap (fst (TaskUsecase_ProcessTask ''./storage'' False net_down
       (example_full, {zipPath ''./storage'' 7}) 7)) ! 0) = StatusFailed
   \<and> zipPath ''./storage'' 7 \<in> snd (TaskUsecase_ProcessTask ''./storage'' False net_down
       (example_full, {zipPath ''./storage'' 7}) 7)"
  by (simp add: ProcessTask_registered [OF example_full_tasks(1,2)])

section \<open>Starting the processing\<close>

lemma example_one_ref_eval:
  "example_one_ref =
     \<lparr>heap = [\<lparr>ID = 7, Status = StatusWaiting,
               Objects = [\<lparr>ObjectID = 8, URL = url_a, Error = []\<rparr>], CreatedAt = 100\<rparr>],
      tasks = [(7, 0)], activeTasks = 1, maxTasks = 2\<rparr>"
  by (simp add: example_one_ref_def registry_defs valid_url_a)

text \<open>
  A call with nothing between its two steps starts processing exactly when the count it
  produced is 3, and such a call is the use case's \<open>AddObject\<close>.
\<close>

lemma TaskUsecase_AddObject_trigger:
  assumes "TaskUsecase_AddObject r taskID url unixNano = (r', Inr p, t)"
  shows "t = (if length (Objects (heap r' ! p)) = 3 then Some (ID (heap r' ! p)) else None)"
  using assms
  by (auto simp: TaskUsecase_AddObject_def trigger_check_def split: prod.splits sum.splits)

lemma AddObject_events_sequential:
  "AddObject_events (r, [], started) [Enter g taskID url unixNano, Decide g] =
     (case TaskUsecase_AddObject r taskID url unixNano of
        (r', res, t) \<Rightarrow> (r', [], started @ (case t of None \<Rightarrow> [] | Some i \<Rightarrow> [i])))"
  by (auto simp: TaskUsecase_AddObject_def split: prod.splits sum.splits)

text \<open>
  Claim C7 at two concurrent calls on a task that holds one reference. The first call
  appends the second reference, the second call the third, and only then do both evaluate
  \<open>len(task.Objects) == 3\<close> through the pointer they share: processing is started twice,
  once by the call whose own result was a count of 2. When each call finishes before the
  next begins, processing is started once.
\<close>

theorem C7_both_calls_start_processing:
  "length (Objects (heap (fst (AddObject_events (example_one_ref, [], [])
       [Enter 0 7 url_b 10])) ! 0)) = 2
   \<and> snd (snd (AddObject_events (example_one_ref, [], [])
       [Enter 0 7 url_b 10, Enter 1 7 url_d 11, Decide 0, Decide 1])) = [7, 7]
   \<and> snd (snd (AddObject_events (example_one_ref, [], [])
       [Enter 0 7 url_b 10, Decide 0, Enter 1 7 url_d 11, Decide 1])) = [7]"
  by (simp add: example_one_ref_eval registry_defs valid_url_b valid_url_d trigger_check_def)

section \<open>Bulk attach\<close>












end
